theory Spec2Isabelle
  imports Complex_Main
begin

section \<open>Data model\<close>

text \<open>
  A grain is a JavaScript object with the numeric keys \<open>start\<close> (inclusive) and
  \<open>end\<close> (exclusive), the optional boolean keys \<open>more\<close> and \<open>filler\<close> that
  \<open>createFillerGrain\<close> sets, and whatever further keys the caller attached. Sample
  indices are integers. \<open>end\<close> and \<open>more\<close> are reserved words of Isabelle, hence the
  primes. An absent key is \<open>None\<close>; \<open>meta\<close> stands for all the keys the grain
  functions never look at, \<open>None\<close> when the object has no such key.
\<close>

record 'm grain =
  start :: int
  end' :: int
  more' :: "bool option"
  filler :: "bool option"
  meta :: "'m option"

text \<open>The view window \<open>{ start, end }\<close> of \<open>viewType\<close>.\<close>

record viewType =
  viewStart :: int
  viewEnd :: int

text \<open>
  Reading a property of \<open>undefined\<close> throws a \<open>TypeError\<close>; it is the only
  exception the grain functions can raise.
\<close>

datatype error = TypeError

section \<open>JavaScript arrays\<close>

text \<open>\<open>xs[i]\<close>: the element, or \<open>undefined\<close> (here \<open>None\<close>) outside the array.\<close>

definition elementAt :: "'a list \<Rightarrow> int \<Rightarrow> 'a option" where
  "elementAt xs i = (if 0 \<le> i \<and> i < int (length xs) then Some (xs ! nat i) else None)"

text \<open>
  \<open>xs.slice(first, final)\<close>: a negative bound counts from the end of the array, and both
  bounds are clamped to the array.
\<close>

definition slice :: "'a list \<Rightarrow> int \<Rightarrow> int \<Rightarrow> 'a list" where
  "slice xs first final =
     (let n = int (length xs);
          b = (if first < 0 then max (n + first) 0 else min first n);
          e = (if final < 0 then max (n + final) 0 else min final n)
      in take (nat (e - b)) (drop (nat b) xs))"

section \<open>Containment\<close>

definition isInGrain :: "int \<Rightarrow> 'm grain \<Rightarrow> bool" where
  "isInGrain target grain =
     (let aboveStart = target \<ge> start grain;
          belowEnd = target < end' grain;
          inGrain = aboveStart \<and> belowEnd
      in inGrain)"

section \<open>Division binary search\<close>

text \<open>
  \<open>divisionBinarySearch\<close> is imported from \<open>./generic\<close>, a file that is not among the
  sources. The functions that call it, \<open>splitGrain\<close> and \<open>grainIndexesInView\<close> (and
  through it \<open>whichGrainsToShow\<close>), take it as their first parameter: a function of the
  target, the divisions and the optional upper bound that returns an index or \<open>-1\<close>.
\<close>

type_synonym 'm search = "int \<Rightarrow> 'm grain list \<Rightarrow> int option \<Rightarrow> int"

text \<open>
  Modelled from the spec: \<open>divisionSearch\<close> is a search as the specification
  (section 4.3) describes the absent \<open>divisionBinarySearch\<close>: the index of the grain
  whose interval \<open>[start, end)\<close> contains the target, found by a standard binary search
  that compares the target with the candidate's \<open>start\<close> and \<open>end\<close> (a three-way
  ordering) and never reads outside the sequence; the result type is an index or \<open>-1\<close>,
  and \<open>-1\<close> is returned without searching when the optional upper bound is supplied and
  the target is at or beyond it. \<open>searchBetween\<close> searches the window of indices
  \<open>lo \<le> i < hi\<close>, going left when the target is below the candidate's start and right
  when it is at or beyond the candidate's end; a window that reaches past the sequence is
  not searched. The spec leaves open what the search gives for a target that no grain
  contains and no bound excludes: here an exhausted window gives \<open>-1\<close>, the only value
  of the result type that is not an index.
\<close>

function searchBetween :: "int \<Rightarrow> 'm grain list \<Rightarrow> nat \<Rightarrow> nat \<Rightarrow> int" where
  "searchBetween target divisions lo hi =
     (if hi \<le> lo \<or> length divisions < hi then - 1
      else
        let mid = (lo + hi) div 2;
            candidate = divisions ! mid
        in if target < start candidate then searchBetween target divisions lo mid
           else if end' candidate \<le> target then searchBetween target divisions (Suc mid) hi
           else int mid)"
  by pat_completeness auto
termination
  by (relation "measure (\<lambda>(target, divisions, lo, hi). hi - lo)") auto

declare searchBetween.simps [simp del]

definition divisionSearch :: "'m search" where
  "divisionSearch target divisions upperBound =
     (case upperBound of
        Some bound \<Rightarrow>
          if bound \<le> target then - 1
          else searchBetween target divisions 0 (length divisions)
      | None \<Rightarrow> searchBetween target divisions 0 (length divisions))"

section \<open>Splitting\<close>

definition splitGrainIntoTwo :: "'m grain \<Rightarrow> int \<Rightarrow> 'm grain list" where
  "splitGrainIntoTwo grain splitPoint =
     (let pointTooLow = splitPoint \<le> start grain;
          pointTooHigh = splitPoint \<ge> end' grain - 1
      in if pointTooLow \<or> pointTooHigh then [grain]
         else
           let leftStart = start grain;
               leftEnd = splitPoint;
               rightStart = splitPoint;
               rightEnd = end' grain;
               leftGrain = grain\<lparr>start := leftStart, end' := leftEnd\<rparr>;
               rightGrain = grain\<lparr>start := rightStart, end' := rightEnd\<rparr>
           in [leftGrain, rightGrain])"

text \<open>
  \<open>grains[0].start\<close> and \<open>grains[lastGrainIndex].end\<close> throw on an empty array. When
  the search gives \<open>-1\<close>, \<open>grains.slice(-1, 0)\<close> is empty, its element \<open>0\<close> is
  \<open>undefined\<close>, and \<open>splitGrainIntoTwo\<close> throws on reading its \<open>start\<close>.
\<close>

definition splitGrain :: "'m search \<Rightarrow> 'm grain list \<Rightarrow> int \<Rightarrow> error + 'm grain list" where
  "splitGrain divisionBinarySearch grains splitPoint =
     (case elementAt grains 0 of
        None \<Rightarrow> Inl TypeError
      | Some firstGrain \<Rightarrow>
          let firstSample = start firstGrain;
              lastGrainIndex = int (length grains) - 1
          in (case elementAt grains lastGrainIndex of
                None \<Rightarrow> Inl TypeError
              | Some lastGrain \<Rightarrow>
                  let lastSample = end' lastGrain - 1;
                      pointTooLow = splitPoint \<le> firstSample;
                      pointTooHigh = splitPoint \<ge> lastSample
                  in if pointTooLow \<or> pointTooHigh then Inr grains
                     else
                       let targetGrainIndex = divisionBinarySearch splitPoint grains None;
                           leftSide = slice grains 0 targetGrainIndex;
                           rightSide = slice grains (targetGrainIndex + 1) (lastGrainIndex + 1)
                       in (case elementAt (slice grains targetGrainIndex (targetGrainIndex + 1)) 0 of
                             None \<Rightarrow> Inl TypeError
                           | Some targetGrain \<Rightarrow>
                               Inr (leftSide @ splitGrainIntoTwo targetGrain splitPoint
                                      @ rightSide))))"

section \<open>Equally spaced grains\<close>

text \<open>
  Modelled from the spec: \<open>logicalSegment\<close> is imported from \<open>./generic\<close>, a file
  that is not among the sources. The specification (section 4.4) gives its contract: the
  range \<open>[0, sampleCount)\<close> is partitioned into consecutive grains of the grain length,
  the final grain shortened to fit when the sample count is not an exact multiple, and the
  grains carry no key beyond \<open>start\<close> and \<open>end\<close>. Only the length of the data is used.
  The spec says nothing on a grain length that is not positive; \<open>segmentFrom\<close> gives no
  grain there. Whatever is returned there, grains of length zero cannot partition a range
  that has samples.
\<close>

function segmentFrom :: "int \<Rightarrow> int \<Rightarrow> int \<Rightarrow> 'm grain list" where
  "segmentFrom position sampleCount grainLength =
     (if grainLength \<le> 0 \<or> sampleCount \<le> position then []
      else \<lparr>start = position, end' = min (position + grainLength) sampleCount,
             more' = None, filler = None, meta = None\<rparr>
           # segmentFrom (position + grainLength) sampleCount grainLength)"
  by pat_completeness auto
termination
  by (relation "measure (\<lambda>(position, sampleCount, grainLength). nat (sampleCount - position))")
    auto

declare segmentFrom.simps [simp del]

definition logicalSegment :: "'a list \<Rightarrow> int \<Rightarrow> 'm grain list" where
  "logicalSegment data grainLength = segmentFrom 0 (int (length data)) grainLength"

text \<open>
  \<open>secondsToSamples\<close> is imported from \<open>./convert\<close>, which is not among the sources
  either; it is a parameter here.
\<close>

definition createEquallySpacedGrains ::
  "(real \<Rightarrow> int) \<Rightarrow> 'a list \<Rightarrow> real \<Rightarrow> 'm grain list" where
  "createEquallySpacedGrains secondsToSamples data secondsPerGrain =
     (let grainLength = secondsToSamples secondsPerGrain;
          grains = logicalSegment data grainLength
      in grains)"

section \<open>Sample cases\<close>

definition grainLengths :: "'m grain list \<Rightarrow> int list" where
  "grainLengths grains = map (\<lambda>g. end' g - start g) grains"

text \<open>
  Modelled from the spec: \<open>range\<close> is imported from \<open>./generic\<close>, a file that is not
  among the sources. The specification (section 6) gives \<open>range(n)\<close> as the sequence
  \<open>0..n-1\<close>, which is empty when \<open>n\<close> is not positive.
\<close>

definition rangeTo :: "int \<Rightarrow> int list" where
  "rangeTo n = [0..n - 1]"

text \<open>
  \<open>Math.abs\<close> of a number is its absolute value, and \<open>Math.abs(undefined)\<close> is
  \<open>NaN\<close>; \<open>data[i]\<close> is \<open>undefined\<close> outside the array.
\<close>

datatype number = Num real | NaN

fun mathAbs :: "real option \<Rightarrow> number" where
  "mathAbs None = NaN"
| "mathAbs (Some x) = Num \<bar>x\<bar>"

text \<open>
  \<open>random\<close> is imported from \<open>./math\<close> and is not among the sources; it is a
  parameter that takes the generator's state and returns the drawn index with the next
  state. \<open>drawIndexes\<close> is \<open>rangePerGrain[i].map(() => random(start, end))\<close>: one draw
  for each element of the range, in order.
\<close>

fun drawIndexes ::
  "(int \<Rightarrow> int \<Rightarrow> 's \<Rightarrow> int \<times> 's) \<Rightarrow> int \<Rightarrow> int \<Rightarrow> int list \<Rightarrow> 's \<Rightarrow> int list \<times> 's" where
  "drawIndexes random lo hi [] s = ([], s)"
| "drawIndexes random lo hi (k # ks) s =
     (let (i, s1) = random lo hi s;
          (rest, s2) = drawIndexes random lo hi ks s1
      in (i # rest, s2))"

text \<open>
  The callback of \<open>grains.map\<close> in \<open>createSampleCases\<close>, applied to the grains from
  index \<open>i\<close> on. \<open>rangePerGrain[i].map\<close> throws when \<open>rangePerGrain[i]\<close> is
  \<open>undefined\<close>.
\<close>

fun casesFrom ::
  "(int \<Rightarrow> int \<Rightarrow> 's \<Rightarrow> int \<times> 's) \<Rightarrow> int list list \<Rightarrow> real list \<Rightarrow> nat \<Rightarrow> 'm grain list \<Rightarrow> 's
     \<Rightarrow> error + (number list list \<times> 's)" where
  "casesFrom random rangePerGrain data i [] s = Inr ([], s)"
| "casesFrom random rangePerGrain data i (g # gs) s =
     (case elementAt rangePerGrain (int i) of
        None \<Rightarrow> Inl TypeError
      | Some r \<Rightarrow>
          let (casesIndexes, s1) = drawIndexes random (start g) (end' g) r s;
              collectedSignedData = map (elementAt data) casesIndexes;
              collectedData = map mathAbs collectedSignedData
          in (case casesFrom random rangePerGrain data (Suc i) gs s1 of
                Inl e \<Rightarrow> Inl e
              | Inr (rest, s2) \<Rightarrow> Inr (collectedData # rest, s2)))"

text \<open>
  Grain lengths and the case rate are integers, for which the quotient and its ceiling
  are exact in JavaScript's numbers; the case rate is positive in every theorem below (a
  case rate of zero would make the quotient infinite). The data are numbers.
  \<open>casesPerGrain.map(range)\<close> calls \<open>range\<close> with the element, its index and
  the array; \<open>range\<close> reads the element only.
\<close>

definition createSampleCases ::
  "(int \<Rightarrow> int \<Rightarrow> 's \<Rightarrow> int \<times> 's) \<Rightarrow> 'm grain list \<Rightarrow> real list \<Rightarrow> int \<Rightarrow> 's
     \<Rightarrow> error + (number list list \<times> 's)" where
  "createSampleCases random grains data caseRate s =
     (let lengths = grainLengths grains;
          casesPerGrain = map (\<lambda>l. \<lceil>real_of_int l / real_of_int caseRate\<rceil>) lengths;
          rangePerGrain = map rangeTo casesPerGrain
      in casesFrom random rangePerGrain data 0 grains s)"

section \<open>Grains in view\<close>

record indexesInView =
  startIndex :: int
  endIndex :: int

text \<open>\<open>grains[lastIndex].end\<close> throws on an empty array.\<close>

definition grainIndexesInView ::
  "'m search \<Rightarrow> 'm grain list \<Rightarrow> viewType \<Rightarrow> error + indexesInView" where
  "grainIndexesInView divisionBinarySearch grains view =
     (let lastIndex = int (length grains) - 1
      in case elementAt grains lastIndex of
           None \<Rightarrow> Inl TypeError
         | Some lastGrain \<Rightarrow>
             let trackLength = end' lastGrain;
                 startIndex = divisionBinarySearch (viewStart view) grains (Some trackLength);
                 endIndexFromSearch =
                   divisionBinarySearch (viewEnd view) grains (Some trackLength);
                 endIndex = (if endIndexFromSearch = - 1 then lastIndex else endIndexFromSearch)
             in Inr \<lparr>startIndex = startIndex, endIndex = endIndex\<rparr>)"

definition createFillerGrain :: "int \<Rightarrow> int \<Rightarrow> bool \<Rightarrow> 'm grain" where
  "createFillerGrain startSample endSample moreFlag =
     \<lparr>start = startSample, end' = endSample, more' = Some moreFlag, filler = Some True,
      meta = None\<rparr>"

text \<open>
  \<open>firstGrainToShow.start\<close> throws when \<open>grains[startIndex]\<close> is \<open>undefined\<close>, and
  \<open>lastGrainToShow.end\<close> when \<open>grains[endIndex]\<close> is.
\<close>

definition whichGrainsToShow ::
  "'m search \<Rightarrow> 'm grain list \<Rightarrow> viewType \<Rightarrow> error + 'm grain list" where
  "whichGrainsToShow divisionBinarySearch grains view =
     (case grainIndexesInView divisionBinarySearch grains view of
        Inl e \<Rightarrow> Inl e
      | Inr indexes \<Rightarrow>
          (case elementAt grains (startIndex indexes) of
             None \<Rightarrow> Inl TypeError
           | Some firstGrainToShow \<Rightarrow>
               let moreStart = startIndex indexes \<noteq> 0;
                   startFiller =
                     createFillerGrain (viewStart view) (start firstGrainToShow) moreStart
               in (case elementAt grains (endIndex indexes) of
                     None \<Rightarrow> Inl TypeError
                   | Some lastGrainToShow \<Rightarrow>
                       let lastGrainIndex = int (length grains) - 1;
                           moreEnd = lastGrainIndex \<noteq> endIndex indexes;
                           endFiller =
                             createFillerGrain (end' lastGrainToShow) (viewEnd view) moreEnd;
                           grainsToInclude =
                             slice grains (startIndex indexes) (endIndex indexes + 1);
                           grainsToShow = [startFiller] @ grainsToInclude @ [endFiller]
                       in Inr grainsToShow)))"

section \<open>The contiguity invariant\<close>

text \<open>
  A grain sequence is contiguous when each grain ends where the next one starts and the
  grains are in ascending order of their starts.
\<close>

fun contiguous :: "'m grain list \<Rightarrow> bool" where
  "contiguous [] = True"
| "contiguous [g] = True"
| "contiguous (g # h # gs) = (end' g = start h \<and> start g \<le> start h \<and> contiguous (h # gs))"

section \<open>The contract of the search\<close>

text \<open>
  What the specification (section 4.3) promises of \<open>divisionBinarySearch\<close>, as
  properties of the parameter. On a contiguous sequence the search returns the index of the
  grain that contains the target, with no bound or with a bound above the target.
\<close>

definition findsContainingGrain :: "'m search \<Rightarrow> bool" where
  "findsContainingGrain search =
     (\<forall>gs i t. contiguous gs \<and> i < length gs \<and> isInGrain t (gs ! i) \<longrightarrow>
        search t gs None = int i \<and>
        (\<forall>bound. t < bound \<longrightarrow> search t gs (Some bound) = int i))"

text \<open>A target at or beyond the supplied upper bound gives the sentinel \<open>-1\<close>.\<close>

definition signalsOutOfRange :: "'m search \<Rightarrow> bool" where
  "signalsOutOfRange search =
     (\<forall>gs t bound. bound \<le> t \<longrightarrow> search t gs (Some bound) = - 1)"

text \<open>The result is the sentinel \<open>-1\<close> or an index of the sequence.\<close>

definition returnsIndexOrSentinel :: "'m search \<Rightarrow> bool" where
  "returnsIndexOrSentinel search =
     (\<forall>gs t upperBound.
        search t gs upperBound = - 1 \<or>
        (0 \<le> search t gs upperBound \<and> search t gs upperBound < int (length gs)))"

section \<open>The span of a sequence\<close>


section \<open>Example data\<close>

text \<open>
  A track of thirty samples in three grains, two of them with a label attached, the same
  grains with nothing attached, and four views of the track: one inside the track that is
  not aligned with the grain boundaries, one that is exactly the second grain, one that
  starts at the track's end, and one that ends past it.
\<close>

definition threeGrains :: "string grain list" where
  "threeGrains =
     [\<lparr>start = 0, end' = 10, more' = None, filler = None, meta = Some ''intro''\<rparr>,
      \<lparr>start = 10, end' = 20, more' = None, filler = None, meta = Some ''verse''\<rparr>,
      \<lparr>start = 20, end' = 30, more' = None, filler = None, meta = None\<rparr>]"

definition bareGrains :: "'m grain list" where
  "bareGrains =
     [\<lparr>start = 0, end' = 10, more' = None, filler = None, meta = None\<rparr>,
      \<lparr>start = 10, end' = 20, more' = None, filler = None, meta = None\<rparr>,
      \<lparr>start = 20, end' = 30, more' = None, filler = None, meta = None\<rparr>]"

definition insideView :: viewType where
  "insideView = \<lparr>viewStart = 5, viewEnd = 15\<rparr>"

definition alignedView :: viewType where
  "alignedView = \<lparr>viewStart = 10, viewEnd = 20\<rparr>"

definition beyondView :: viewType where
  "beyondView = \<lparr>viewStart = 30, viewEnd = 35\<rparr>"

definition overhangingView :: viewType where
  "overhangingView = \<lparr>viewStart = 25, viewEnd = 40\<rparr>"

text \<open>
  A generator for \<open>random\<close> that walks through the requested range, the state being
  the number of draws so far; two grains over eight samples of data; and two grains of
  which the second lies past the end of a data array of two samples.
\<close>

definition cyclingRandom :: "int \<Rightarrow> int \<Rightarrow> int \<Rightarrow> int \<times> int" where
  "cyclingRandom lo hi s = (lo + s mod (hi - lo), s + 1)"

definition twoGrains :: "unit grain list" where
  "twoGrains =
     [\<lparr>start = 0, end' = 3, more' = None, filler = None, meta = None\<rparr>,
      \<lparr>start = 3, end' = 8, more' = None, filler = None, meta = None\<rparr>]"

definition shortData :: "real list" where
  "shortData = [3, - 4]"

definition grainsPastData :: "unit grain list" where
  "grainsPastData =
     [\<lparr>start = 0, end' = 2, more' = None, filler = None, meta = None\<rparr>,
      \<lparr>start = 2, end' = 4, more' = None, filler = None, meta = None\<rparr>]"

text \<open>The absolute values of the elements of a data array, as numbers.\<close>

definition absoluteValues :: "real list \<Rightarrow> number list" where
  "absoluteValues data = map (\<lambda>x. Num \<bar>x\<bar>) data"

text \<open>A conversion at five samples per second, and twelve samples of data.\<close>

definition fiveSamplesPerSecond :: "real \<Rightarrow> int" where
  "fiveSamplesPerSecond seconds = \<lfloor>seconds * 5\<rfloor>"

definition twelveSamples :: "real list" where
  "twelveSamples = [1, - 2, 3, - 4, 5, - 6, 7, - 8, 9, - 10, 11, - 12]"

section \<open>Arrays: indexing and slicing\<close>

lemma index_nat: "0 \<le> k \<Longrightarrow> k < int n \<Longrightarrow> \<exists>i. k = int i \<and> i < n"
  by (rule exI [of _ "nat k"]) simp

lemma elementAt_nat: "i < length xs \<Longrightarrow> elementAt xs (int i) = Some (xs ! i)"
  by (simp add: elementAt_def)

lemma elementAt_first: "xs \<noteq> [] \<Longrightarrow> elementAt xs 0 = Some (hd xs)"
  by (simp add: elementAt_def hd_conv_nth)

lemma elementAt_last: "xs \<noteq> [] \<Longrightarrow> elementAt xs (int (length xs) - 1) = Some (last xs)"
  by (cases xs rule: rev_cases) (simp_all add: elementAt_def)

lemma elementAt_outside: "i < 0 \<or> int (length xs) \<le> i \<Longrightarrow> elementAt xs i = None"
  by (auto simp: elementAt_def)

lemma slice_take: "0 \<le> i \<Longrightarrow> slice xs 0 i = take (nat i) xs"
  by (auto simp: slice_def Let_def min_def)

lemma slice_drop: "0 \<le> i \<Longrightarrow> slice xs i (int (length xs)) = drop (nat i) xs"
  by (auto simp: slice_def Let_def min_def)

lemma slice_single: "i < length xs \<Longrightarrow> slice xs (int i) (int i + 1) = [xs ! i]"
  by (auto simp: slice_def Let_def min_def take_Suc_conv_app_nth hd_drop_conv_nth take_Suc)

lemma slice_between:
  "slice xs (int i) (int j + 1) = take (Suc j - i) (drop i xs)"
proof -
  have "nat (int j + 1 - int i) = Suc j - i" by linarith
  then show ?thesis
    by (auto simp: slice_def Let_def min_def max_def)
qed

section \<open>Contiguous sequences\<close>


lemma contiguous_append:
  "contiguous (xs @ ys) \<longleftrightarrow>
     contiguous xs \<and> contiguous ys \<and>
     (xs \<noteq> [] \<and> ys \<noteq> [] \<longrightarrow> end' (last xs) = start (hd ys) \<and> start (last xs) \<le> start (hd ys))"
proof (induction xs rule: contiguous.induct)
  case 1
  then show ?case by simp
next
  case (2 g)
  then show ?case by (cases ys) auto
next
  case (3 g h gs)
  then show ?case by auto
qed

lemma contiguous_nth:
  "contiguous gs \<Longrightarrow> Suc i < length gs \<Longrightarrow>
     end' (gs ! i) = start (gs ! Suc i) \<and> start (gs ! i) \<le> start (gs ! Suc i)"
proof (induction gs arbitrary: i rule: contiguous.induct)
  case 1
  then show ?case by simp
next
  case (2 g)
  then show ?case by simp
next
  case (3 g h gs)
  then show ?case by (cases i) auto
qed

lemma contiguous_start_mono:
  "contiguous gs \<Longrightarrow> i \<le> j \<Longrightarrow> j < length gs \<Longrightarrow> start (gs ! i) \<le> start (gs ! j)"
proof (induction j)
  case 0
  then show ?case by simp
next
  case (Suc j)
  show ?case
  proof (cases "i = Suc j")
    case True
    then show ?thesis by simp
  next
    case False
    with Suc have "start (gs ! i) \<le> start (gs ! j)" by simp
    moreover have "start (gs ! j) \<le> start (gs ! Suc j)"
      using contiguous_nth [of gs j] Suc.prems by simp
    ultimately show ?thesis by linarith
  qed
qed

lemma contiguous_end_le_start:
  assumes "contiguous gs" "i < j" "j < length gs"
  shows "end' (gs ! i) \<le> start (gs ! j)"
proof -
  have "end' (gs ! i) = start (gs ! Suc i)"
    using contiguous_nth [of gs i] assms by simp
  moreover have "start (gs ! Suc i) \<le> start (gs ! j)"
    using contiguous_start_mono [of gs "Suc i" j] assms by simp
  ultimately show ?thesis by simp
qed

text \<open>In a contiguous sequence at most one grain contains a given sample.\<close>

lemma contains_unique:
  assumes "contiguous gs" "a < length gs" "b < length gs"
    "isInGrain t (gs ! a)" "isInGrain t (gs ! b)"
  shows "a = b"
proof (rule ccontr)
  assume "a \<noteq> b"
  then consider "a < b" | "b < a" by linarith
  then show False
  proof cases
    case 1
    then show False
      using contiguous_end_le_start [of gs a b] assms by (simp add: isInGrain_def)
  next
    case 2
    then show False
      using contiguous_end_le_start [of gs b a] assms by (simp add: isInGrain_def)
  qed
qed

text \<open>Every sample from the first start up to the last end lies in some grain.\<close>

lemma contains_exists:
  "contiguous gs \<Longrightarrow> gs \<noteq> [] \<Longrightarrow> start (hd gs) \<le> t \<Longrightarrow> t < end' (last gs) \<Longrightarrow>
     \<exists>i < length gs. isInGrain t (gs ! i)"
proof (induction gs rule: contiguous.induct)
  case 1
  then show ?case by simp
next
  case (2 g)
  then show ?case by (simp add: isInGrain_def)
next
  case (3 g h gs)
  show ?case
  proof (cases "t < end' g")
    case True
    with 3 have "isInGrain t ((g # h # gs) ! 0)" by (simp add: isInGrain_def)
    then show ?thesis by blast
  next
    case False
    with 3 obtain i where "i < length (h # gs)" "isInGrain t ((h # gs) ! i)" by auto
    then have "Suc i < length (g # h # gs)" "isInGrain t ((g # h # gs) ! Suc i)" by auto
    then show ?thesis by blast
  qed
qed

section \<open>The search finds the containing grain\<close>

lemma searchBetween_finds:
  "contiguous gs \<Longrightarrow> lo \<le> i \<Longrightarrow> i < hi \<Longrightarrow> hi \<le> length gs \<Longrightarrow> isInGrain t (gs ! i) \<Longrightarrow>
     searchBetween t gs lo hi = int i"
proof (induction t gs lo hi rule: searchBetween.induct)
  case (1 target divisions lo hi)
  let ?mid = "(lo + hi) div 2"
  have mid: "lo \<le> ?mid" "?mid < hi" using 1(4,5) by auto
  have midlen: "?mid < length divisions" using mid 1(6) by simp
  have guard: "\<not> (hi \<le> lo \<or> length divisions < hi)" using 1(4,5,6) by simp
  show ?case
  proof (cases "target < start (divisions ! ?mid)")
    case True
    have "i < ?mid"
    proof (rule ccontr)
      assume "\<not> i < ?mid"
      then have "start (divisions ! ?mid) \<le> start (divisions ! i)"
        using contiguous_start_mono [of divisions ?mid i] 1(3,5,6) by simp
      with True 1(7) show False by (simp add: isInGrain_def)
    qed
    then have "searchBetween target divisions lo ?mid = int i"
      using 1(1) [OF guard refl refl True] 1(3,4,7) midlen by simp
    then show ?thesis
      using guard True by (subst searchBetween.simps) (simp add: Let_def)
  next
    case False
    show ?thesis
    proof (cases "end' (divisions ! ?mid) \<le> target")
      case True
      have "?mid < i"
      proof (rule ccontr)
        assume "\<not> ?mid < i"
        then consider "i = ?mid" | "i < ?mid" by linarith
        then show False
        proof cases
          case 1
          with True \<open>isInGrain target (divisions ! i)\<close> show False
            by (simp add: isInGrain_def)
        next
          case 2
          then have "end' (divisions ! i) \<le> start (divisions ! ?mid)"
            using contiguous_end_le_start [of divisions i ?mid] \<open>contiguous divisions\<close> midlen
            by simp
          with False \<open>isInGrain target (divisions ! i)\<close> show False
            by (simp add: isInGrain_def)
        qed
      qed
      then have "searchBetween target divisions (Suc ?mid) hi = int i"
        using 1(2) [OF guard refl refl False True] 1(3,5,6,7) by simp
      then show ?thesis
        using guard False True by (subst searchBetween.simps) (simp add: Let_def)
    next
      case notHigh: False
      have "isInGrain target (divisions ! ?mid)"
        using False notHigh by (simp add: isInGrain_def)
      then have "?mid = i"
        using contains_unique [of divisions ?mid i target] 1(3,5,6,7) midlen by simp
      then show ?thesis
        using guard False notHigh by (subst searchBetween.simps) (simp add: Let_def)
    qed
  qed
qed

lemma searchBetween_range:
  "searchBetween t gs lo hi = - 1 \<or>
     (int lo \<le> searchBetween t gs lo hi \<and> searchBetween t gs lo hi < int hi \<and> hi \<le> length gs)"
proof (induction t gs lo hi rule: searchBetween.induct)
  case (1 target divisions lo hi)
  show ?case
  proof (cases "hi \<le> lo \<or> length divisions < hi")
    case True
    then show ?thesis by (subst searchBetween.simps) simp
  next
    case guard: False
    let ?mid = "(lo + hi) div 2"
    have mid: "lo \<le> ?mid" "?mid < hi" using guard by auto
    show ?thesis
    proof (cases "target < start (divisions ! ?mid)")
      case True
      have eq: "searchBetween target divisions lo hi = searchBetween target divisions lo ?mid"
        using guard True by (subst searchBetween.simps) (simp add: Let_def)
      show ?thesis
        using 1(1) [OF guard refl refl True] mid guard unfolding eq by auto
    next
      case False
      show ?thesis
      proof (cases "end' (divisions ! ?mid) \<le> target")
        case True
        have eq: "searchBetween target divisions lo hi
                    = searchBetween target divisions (Suc ?mid) hi"
          using guard False True by (subst searchBetween.simps) (simp add: Let_def)
        show ?thesis
          using 1(2) [OF guard refl refl False True] mid guard unfolding eq by auto
      next
        case notHigh: False
        have "searchBetween target divisions lo hi = int ?mid"
          using guard False notHigh by (subst searchBetween.simps) (simp add: Let_def)
        then show ?thesis using mid guard by auto
      qed
    qed
  qed
qed

lemma divisionSearch_finds: "findsContainingGrain divisionSearch"
  unfolding findsContainingGrain_def
proof (intro allI impI)
  fix gs :: "'a grain list" and i t
  assume a: "contiguous gs \<and> i < length gs \<and> isInGrain t (gs ! i)"
  then have found: "searchBetween t gs 0 (length gs) = int i"
    using searchBetween_finds [of gs 0 i "length gs" t] by simp
  then show "divisionSearch t gs None = int i \<and>
      (\<forall>bound. t < bound \<longrightarrow> divisionSearch t gs (Some bound) = int i)"
    by (simp add: divisionSearch_def)
qed

lemma divisionSearch_signals: "signalsOutOfRange divisionSearch"
  by (simp add: signalsOutOfRange_def divisionSearch_def)

lemma divisionSearch_index: "returnsIndexOrSentinel divisionSearch"
  unfolding returnsIndexOrSentinel_def
proof (intro allI)
  fix gs :: "'a grain list" and t upperBound
  show "divisionSearch t gs upperBound = - 1 \<or>
      (0 \<le> divisionSearch t gs upperBound \<and> divisionSearch t gs upperBound < int (length gs))"
    using searchBetween_range [of t gs 0 "length gs"]
    by (auto simp: divisionSearch_def split: option.splits)
qed

section \<open>Using the contract of the search\<close>

lemma finds_unbounded:
  "findsContainingGrain search \<Longrightarrow> contiguous gs \<Longrightarrow> i < length gs \<Longrightarrow>
     isInGrain t (gs ! i) \<Longrightarrow> search t gs None = int i"
  unfolding findsContainingGrain_def by blast

lemma finds_bounded:
  "findsContainingGrain search \<Longrightarrow> contiguous gs \<Longrightarrow> i < length gs \<Longrightarrow>
     isInGrain t (gs ! i) \<Longrightarrow> t < bound \<Longrightarrow> search t gs (Some bound) = int i"
  unfolding findsContainingGrain_def by blast

lemma signals_bound:
  "signalsOutOfRange search \<Longrightarrow> bound \<le> t \<Longrightarrow> search t gs (Some bound) = - 1"
  unfolding signalsOutOfRange_def by blast

lemma index_or_sentinel:
  "returnsIndexOrSentinel search \<Longrightarrow>
     search t gs upperBound = - 1 \<or>
     (0 \<le> search t gs upperBound \<and> search t gs upperBound < int (length gs))"
  unfolding returnsIndexOrSentinel_def by blast

section \<open>Sequence split\<close>

lemma contiguous_split:
  assumes "contiguous (xs @ g # ys)"
  shows "contiguous (xs @ splitGrainIntoTwo g p @ ys)"
proof (cases "p \<le> start g \<or> p \<ge> end' g - 1")
  case True
  then show ?thesis using assms by (simp add: splitGrainIntoTwo_def)
next
  case False
  let ?l = "g\<lparr>start := start g, end' := p\<rparr>"
  let ?r = "g\<lparr>start := p, end' := end' g\<rparr>"
  have two: "splitGrainIntoTwo g p = [?l, ?r]"
    using False by (simp add: splitGrainIntoTwo_def Let_def)
  have parts: "contiguous xs" "contiguous (g # ys)"
    "xs \<noteq> [] \<longrightarrow> end' (last xs) = start g \<and> start (last xs) \<le> start g"
    using assms by (simp_all add: contiguous_append)
  have "contiguous (?r # ys)"
    using parts(2) False by (cases ys) simp_all
  then have "contiguous (?l # ?r # ys)"
    using False by simp
  then have "contiguous (xs @ ?l # ?r # ys)"
    using parts(1,3) by (simp add: contiguous_append)
  then show ?thesis using two by simp
qed

lemma hd_split:
  "start (hd (xs @ splitGrainIntoTwo g p @ ys)) = start (hd (xs @ g # ys))"
  by (cases xs) (auto simp: splitGrainIntoTwo_def Let_def)

lemma last_split:
  "end' (last (xs @ splitGrainIntoTwo g p @ ys)) = end' (last (xs @ g # ys))"
  by (cases ys rule: rev_cases) (auto simp: splitGrainIntoTwo_def Let_def)

lemma proper_split:
  "\<forall>h \<in> set (xs @ g # ys). start h < end' h \<Longrightarrow>
     \<forall>h \<in> set (xs @ splitGrainIntoTwo g p @ ys). start h < end' h"
  by (auto simp: splitGrainIntoTwo_def Let_def)

lemma splitGrain_outside:
  "gs \<noteq> [] \<Longrightarrow> p \<le> start (hd gs) \<or> p \<ge> end' (last gs) - 1 \<Longrightarrow>
     splitGrain search gs p = Inr gs"
  by (simp add: splitGrain_def elementAt_first elementAt_last Let_def)

lemma splitGrain_inside:
  assumes "findsContainingGrain search" "contiguous gs" "i < length gs" "isInGrain p (gs ! i)"
    "\<not> (p \<le> start (hd gs) \<or> p \<ge> end' (last gs) - 1)"
  shows "splitGrain search gs p
           = Inr (take i gs @ splitGrainIntoTwo (gs ! i) p @ drop (Suc i) gs)"
proof -
  have ne: "gs \<noteq> []" using assms(3) by auto
  have found: "search p gs None = int i"
    using assms(1,2,3,4) by (rule finds_unbounded)
  have left: "slice gs 0 (int i) = take i gs"
    by (simp add: slice_take)
  have "nat (int i + 1) = Suc i" by simp
  then have right: "slice gs (int i + 1) (int (length gs)) = drop (Suc i) gs"
    using slice_drop [of "int i + 1" gs] by simp
  have target: "elementAt (slice gs (int i) (int i + 1)) 0 = Some (gs ! i)"
    using assms(3) by (simp add: slice_single elementAt_def)
  show ?thesis
    using assms(5) ne
    by (simp add: splitGrain_def elementAt_first elementAt_last Let_def found left right target)
qed

lemma splitGrain_cases:
  assumes "findsContainingGrain search" "gs \<noteq> []" "contiguous gs"
  shows "splitGrain search gs p = Inr gs \<or>
     (\<exists>xs g ys. gs = xs @ g # ys \<and> isInGrain p g \<and>
        splitGrain search gs p = Inr (xs @ splitGrainIntoTwo g p @ ys))"
proof (cases "p \<le> start (hd gs) \<or> p \<ge> end' (last gs) - 1")
  case True
  then show ?thesis using splitGrain_outside assms(2) by blast
next
  case False
  then obtain i where i: "i < length gs" "isInGrain p (gs ! i)"
    using contains_exists [of gs p] assms(2,3) by auto
  have "gs = take i gs @ gs ! i # drop (Suc i) gs"
    using i(1) by (simp add: id_take_nth_drop)
  moreover have "splitGrain search gs p
      = Inr (take i gs @ splitGrainIntoTwo (gs ! i) p @ drop (Suc i) gs)"
    using assms(1,3) i False by (rule splitGrain_inside)
  ultimately show ?thesis using i(2) by blast
qed

lemma splitGrain_fixed:
  assumes "findsContainingGrain search" "gs \<noteq> []" "contiguous gs" "i < length gs"
    "isInGrain p (gs ! i)" "p \<le> start (gs ! i) \<or> p \<ge> end' (gs ! i) - 1"
  shows "splitGrain search gs p = Inr gs"
proof (cases "p \<le> start (hd gs) \<or> p \<ge> end' (last gs) - 1")
  case True
  then show ?thesis using splitGrain_outside assms(2) by blast
next
  case False
  have "splitGrainIntoTwo (gs ! i) p = [gs ! i]"
    using assms(6) by (simp add: splitGrainIntoTwo_def)
  then have "splitGrain search gs p = Inr (take i gs @ [gs ! i] @ drop (Suc i) gs)"
    using splitGrain_inside [OF assms(1,3,4,5) False] by simp
  then show ?thesis using assms(4) by (simp add: id_take_nth_drop [symmetric])
qed

lemma threeGrains_valid:
  "threeGrains \<noteq> []" "contiguous threeGrains" "start (hd threeGrains) = 0"
  "end' (last threeGrains) = 30" "\<forall>g \<in> set threeGrains. start g < end' g"
  by (simp_all add: threeGrains_def)

lemma threeGrains_length: "int (length threeGrains) - 1 = 2"
  by (simp add: threeGrains_def)

text \<open>The scenario of the specification: splitting the three grains at sample 15.\<close>

lemma splitGrain_example:
  "splitGrain divisionSearch threeGrains 15 = Inr
     [\<lparr>start = 0, end' = 10, more' = None, filler = None, meta = Some ''intro''\<rparr>,
      \<lparr>start = 10, end' = 15, more' = None, filler = None, meta = Some ''verse''\<rparr>,
      \<lparr>start = 15, end' = 20, more' = None, filler = None, meta = Some ''verse''\<rparr>,
      \<lparr>start = 20, end' = 30, more' = None, filler = None, meta = None\<rparr>]"
  by (simp add: threeGrains_def splitGrain_def elementAt_def Let_def divisionSearch_def
      slice_def splitGrainIntoTwo_def searchBetween.simps)

section \<open>View resolution\<close>

lemma grainIndexesInView_nonempty:
  "gs \<noteq> [] \<Longrightarrow>
     grainIndexesInView search gs v =
       Inr \<lparr>startIndex = search (viewStart v) gs (Some (end' (last gs))),
            endIndex =
              (if search (viewEnd v) gs (Some (end' (last gs))) = - 1
               then int (length gs) - 1
               else search (viewEnd v) gs (Some (end' (last gs))))\<rparr>"
  by (simp add: grainIndexesInView_def elementAt_last Let_def)

lemma endIndex_not_sentinel:
  assumes "gs \<noteq> []" "grainIndexesInView search gs v = Inr ix"
  shows "endIndex ix \<noteq> - 1"
proof -
  have "0 < length gs" using assms(1) by simp
  then show ?thesis
    using assms(2) unfolding grainIndexesInView_nonempty [OF assms(1)]
    by (auto split: if_splits)
qed

lemma endIndex_range:
  assumes "returnsIndexOrSentinel search" "gs \<noteq> []" "grainIndexesInView search gs v = Inr ix"
  shows "0 \<le> endIndex ix \<and> endIndex ix < int (length gs)"
proof -
  have "0 < length gs" using assms(2) by simp
  then show ?thesis
    using assms(3) index_or_sentinel [OF assms(1), of "viewEnd v" gs "Some (end' (last gs))"]
    unfolding grainIndexesInView_nonempty [OF assms(2)]
    by (auto split: if_splits)
qed

lemma startIndex_range:
  assumes "returnsIndexOrSentinel search" "gs \<noteq> []" "grainIndexesInView search gs v = Inr ix"
  shows "startIndex ix = - 1 \<or> (0 \<le> startIndex ix \<and> startIndex ix < int (length gs))"
  using assms(3) index_or_sentinel [OF assms(1), of "viewStart v" gs "Some (end' (last gs))"]
  unfolding grainIndexesInView_nonempty [OF assms(2)]
  by auto

lemma whichGrainsToShow_indexes:
  assumes "grainIndexesInView search gs v = Inr ix" "startIndex ix = int i" "i < length gs"
    "endIndex ix = int j" "j < length gs"
  shows "whichGrainsToShow search gs v =
     Inr (createFillerGrain (viewStart v) (start (gs ! i)) (i \<noteq> 0)
          # take (Suc j - i) (drop i gs)
          @ [createFillerGrain (end' (gs ! j)) (viewEnd v) (j \<noteq> length gs - 1)])"
proof -
  have "(int (length gs) - 1 \<noteq> int j) = (j \<noteq> length gs - 1)"
    using assms(5) by linarith
  then show ?thesis
    using assms
    by (simp add: whichGrainsToShow_def elementAt_nat Let_def slice_between)
qed

lemma whichGrainsToShow_outside:
  assumes "grainIndexesInView search gs v = Inr ix"
    "elementAt gs (startIndex ix) = None \<or> elementAt gs (endIndex ix) = None"
  shows "whichGrainsToShow search gs v = Inl TypeError"
  using assms by (auto simp: whichGrainsToShow_def Let_def split: option.splits)

lemma whichGrainsToShow_sentinel:
  assumes "grainIndexesInView search gs v = Inr ix" "startIndex ix = - 1"
  shows "whichGrainsToShow search gs v = Inl TypeError"
  using assms by (simp add: whichGrainsToShow_def elementAt_def)

lemma insideView_indexes:
  "grainIndexesInView divisionSearch threeGrains insideView
     = Inr \<lparr>startIndex = 0, endIndex = 1\<rparr>"
  by (simp add: grainIndexesInView_def threeGrains_def insideView_def elementAt_def Let_def
      divisionSearch_def searchBetween.simps)

lemma beyondView_indexes:
  "grainIndexesInView divisionSearch threeGrains beyondView
     = Inr \<lparr>startIndex = - 1, endIndex = 2\<rparr>"
  by (simp add: grainIndexesInView_def threeGrains_def beyondView_def elementAt_def Let_def
      divisionSearch_def)

lemma insideView_shown:
  "whichGrainsToShow divisionSearch threeGrains insideView = Inr
     [\<lparr>start = 5, end' = 0, more' = Some False, filler = Some True, meta = None\<rparr>,
      \<lparr>start = 0, end' = 10, more' = None, filler = None, meta = Some ''intro''\<rparr>,
      \<lparr>start = 10, end' = 20, more' = None, filler = None, meta = Some ''verse''\<rparr>,
      \<lparr>start = 20, end' = 15, more' = Some True, filler = Some True, meta = None\<rparr>]"
  unfolding whichGrainsToShow_def insideView_indexes
  by (simp add: threeGrains_def insideView_def elementAt_def Let_def slice_def
      createFillerGrain_def)

section \<open>Drawing sample cases\<close>

lemma drawIndexes_length: "length (fst (drawIndexes random lo hi ks s)) = length ks"
  by (induction ks arbitrary: s) (simp_all add: split_beta Let_def)

lemma drawIndexes_within:
  assumes "\<forall>s. lo \<le> fst (random lo hi s) \<and> fst (random lo hi s) < hi"
  shows "\<forall>k \<in> set (fst (drawIndexes random lo hi ks s)). lo \<le> k \<and> k < hi"
  using assms by (induction ks arbitrary: s) (simp_all add: split_beta Let_def)

lemma rangeTo_length: "length (rangeTo n) = nat n"
  by (simp add: rangeTo_def)

lemma rangeTo_empty: "rangeTo n \<noteq> [] \<Longrightarrow> 0 < n"
  by (simp add: rangeTo_def)

lemma ceiling_positive:
  assumes "0 < c" "0 < \<lceil>real_of_int l / real_of_int c\<rceil>"
  shows "0 < l"
proof (rule ccontr)
  assume "\<not> 0 < l"
  then have "real_of_int l / real_of_int c \<le> 0"
    using assms(1) by (simp add: divide_le_0_iff)
  then have "\<lceil>real_of_int l / real_of_int c\<rceil> \<le> 0" by (simp add: ceiling_le_zero)
  with assms(2) show False by simp
qed

lemma casesFrom_cases:
  assumes "\<forall>lo hi s. lo < hi \<longrightarrow> lo \<le> fst (random lo hi s) \<and> fst (random lo hi s) < hi"
    "i + length gs \<le> length rangePerGrain"
    "\<forall>k < length gs. rangePerGrain ! (i + k) \<noteq> [] \<longrightarrow> start (gs ! k) < end' (gs ! k)"
  shows "\<exists>cases s'. casesFrom random rangePerGrain data i gs s = Inr (cases, s') \<and>
           length cases = length gs \<and>
           (\<forall>k < length gs.
              length (cases ! k) = length (rangePerGrain ! (i + k)) \<and>
              (\<forall>x \<in> set (cases ! k).
                 \<exists>idx. start (gs ! k) \<le> idx \<and> idx < end' (gs ! k) \<and>
                       x = mathAbs (elementAt data idx)))"
  using assms(2,3)
proof (induction gs arbitrary: i s)
  case Nil
  then show ?case by simp
next
  case (Cons g gs)
  have inRange: "i < length rangePerGrain" using Cons.prems(1) by simp
  let ?r = "rangePerGrain ! i"
  have at: "elementAt rangePerGrain (int i) = Some ?r"
    using inRange by (simp add: elementAt_def)
  let ?draw = "drawIndexes random (start g) (end' g) ?r s"
  let ?collected = "map mathAbs (map (elementAt data) (fst ?draw))"
  have tailRange: "Suc i + length gs \<le> length rangePerGrain" using Cons.prems(1) by simp
  have tailProper: "\<forall>k < length gs. rangePerGrain ! (Suc i + k) \<noteq> [] \<longrightarrow>
      start (gs ! k) < end' (gs ! k)"
  proof (intro allI impI)
    fix k assume "k < length gs" "rangePerGrain ! (Suc i + k) \<noteq> []"
    then show "start (gs ! k) < end' (gs ! k)"
      using Cons.prems(2) [rule_format, of "Suc k"] by simp
  qed
  obtain rest s' where rest:
    "casesFrom random rangePerGrain data (Suc i) gs (snd ?draw) = Inr (rest, s')"
    "length rest = length gs"
    "\<forall>k < length gs.
        length (rest ! k) = length (rangePerGrain ! (Suc i + k)) \<and>
        (\<forall>x \<in> set (rest ! k).
           \<exists>idx. start (gs ! k) \<le> idx \<and> idx < end' (gs ! k) \<and>
                 x = mathAbs (elementAt data idx))"
    using Cons.IH [OF tailRange tailProper, of "snd ?draw"] by blast
  have result: "casesFrom random rangePerGrain data i (g # gs) s = Inr (?collected # rest, s')"
    using at rest(1) by (simp add: split_beta Let_def)
  have headLength: "length ?collected = length ?r"
    by (simp add: drawIndexes_length)
  have headValues: "\<forall>x \<in> set ?collected.
      \<exists>idx. start g \<le> idx \<and> idx < end' g \<and> x = mathAbs (elementAt data idx)"
  proof (cases "?r = []")
    case True
    then show ?thesis by simp
  next
    case False
    then have "start g < end' g" using Cons.prems(2) [rule_format, of 0] by simp
    then have "\<forall>s. start g \<le> fst (random (start g) (end' g) s) \<and>
        fst (random (start g) (end' g) s) < end' g"
      using assms(1) by blast
    then have "\<forall>k \<in> set (fst ?draw). start g \<le> k \<and> k < end' g"
      by (rule drawIndexes_within)
    then show ?thesis by auto
  qed
  have "\<forall>k < length (g # gs).
      length ((?collected # rest) ! k) = length (rangePerGrain ! (i + k)) \<and>
      (\<forall>x \<in> set ((?collected # rest) ! k).
         \<exists>idx. start ((g # gs) ! k) \<le> idx \<and> idx < end' ((g # gs) ! k) \<and>
               x = mathAbs (elementAt data idx))"
  proof (intro allI impI)
    fix k assume k: "k < length (g # gs)"
    show "length ((?collected # rest) ! k) = length (rangePerGrain ! (i + k)) \<and>
      (\<forall>x \<in> set ((?collected # rest) ! k).
         \<exists>idx. start ((g # gs) ! k) \<le> idx \<and> idx < end' ((g # gs) ! k) \<and>
               x = mathAbs (elementAt data idx))"
    proof (cases k)
      case 0
      then show ?thesis using headLength headValues by simp
    next
      case (Suc k')
      then show ?thesis using rest(3) k by simp
    qed
  qed
  then show ?case using result rest(2) by simp
qed

lemma cyclingRandom_within:
  "\<forall>lo hi s. lo < hi \<longrightarrow>
     lo \<le> fst (cyclingRandom lo hi s) \<and> fst (cyclingRandom lo hi s) < hi"
proof (intro allI impI)
  fix lo hi s :: int
  assume "lo < hi"
  then have "0 \<le> s mod (hi - lo)" "s mod (hi - lo) < hi - lo" by simp_all
  then show "lo \<le> fst (cyclingRandom lo hi s) \<and> fst (cyclingRandom lo hi s) < hi"
    by (simp add: cyclingRandom_def)
qed

lemma createSampleCases_example:
  "createSampleCases cyclingRandom twoGrains [1, - 2, 3, - 4, 5, - 6, 7, - 8] 2 0
     = Inr ([[Num 1, Num 2], [Num 6, Num 7, Num 8]], 5)"
  by (simp add: createSampleCases_def twoGrains_def grainLengths_def rangeTo_def Let_def
      elementAt_def cyclingRandom_def upto.simps)

section \<open>Segments of equal length\<close>









lemma createEquallySpacedGrains_example:
  "(createEquallySpacedGrains fiveSamplesPerSecond twelveSamples 1 :: unit grain list) =
     [\<lparr>start = 0, end' = 5, more' = None, filler = None, meta = None\<rparr>,
      \<lparr>start = 5, end' = 10, more' = None, filler = None, meta = None\<rparr>,
      \<lparr>start = 10, end' = 12, more' = None, filler = None, meta = None\<rparr>]"
  by (simp add: createEquallySpacedGrains_def logicalSegment_def fiveSamplesPerSecond_def
      twelveSamples_def segmentFrom.simps)

section \<open>Single-grain split\<close>

text \<open>
  C2. A split point at or before the grain's start, or at or after its last sample
  \<open>end - 1\<close>, gives back the grain alone and unchanged. Any other split point gives
  exactly two grains, the left one from the grain's start to the split point and the right
  one from the split point to the grain's end, and both carry every other key of the
  grain with the grain's value.
\<close>

theorem splitGrainIntoTwo_contract:
  "(p \<le> start g \<or> p \<ge> end' g - 1 \<longrightarrow> splitGrainIntoTwo g p = [g]) \<and>
   (\<not> (p \<le> start g \<or> p \<ge> end' g - 1) \<longrightarrow>
      (\<exists>l r. splitGrainIntoTwo g p = [l, r] \<and>
         start l = start g \<and> end' l = p \<and> start r = p \<and> end' r = end' g \<and>
         more' l = more' g \<and> filler l = filler g \<and> meta l = meta g \<and>
         more' r = more' g \<and> filler r = filler g \<and> meta r = meta g))"
  by (simp add: splitGrainIntoTwo_def Let_def)

theorem splitGrainIntoTwo_contract_witness:
  "splitGrainIntoTwo
     \<lparr>start = 10, end' = 20, more' = None, filler = Some False, meta = Some ''kick''\<rparr> 19
   = [\<lparr>start = 10, end' = 20, more' = None, filler = Some False, meta = Some ''kick''\<rparr>] \<and>
   (\<exists>l r. splitGrainIntoTwo
       \<lparr>start = 10, end' = 20, more' = None, filler = Some False, meta = Some ''kick''\<rparr> 15
       = [l, r] \<and>
      start l = 10 \<and> end' l = 15 \<and> start r = 15 \<and> end' r = 20 \<and>
      more' l = None \<and> filler l = Some False \<and> meta l = Some ''kick'' \<and>
      more' r = None \<and> filler r = Some False \<and> meta r = Some ''kick'')"
  using splitGrainIntoTwo_contract
    [of 19 "\<lparr>start = 10, end' = 20, more' = None, filler = Some False, meta = Some ''kick''\<rparr>"]
    splitGrainIntoTwo_contract
    [of 15 "\<lparr>start = 10, end' = 20, more' = None, filler = Some False, meta = Some ''kick''\<rparr>"]
  by simp

section \<open>Invariant preservation\<close>

text \<open>
  C1. With a search that finds the containing grain, splitting a non-empty contiguous
  grain sequence at any point returns a sequence, and that sequence is again contiguous
  (each grain ends where the next starts, starts ascending), begins at the same first start
  and ends at the same last end. When every grain of the input is a proper interval,
  \<open>start < end\<close>, so is every grain of the result.
\<close>

theorem splitGrain_preserves_contiguity:
  assumes "findsContainingGrain search" "gs \<noteq> []" "contiguous gs"
  shows "\<exists>r. splitGrain search gs p = Inr r \<and> r \<noteq> [] \<and> contiguous r \<and>
           start (hd r) = start (hd gs) \<and> end' (last r) = end' (last gs) \<and>
           ((\<forall>g \<in> set gs. start g < end' g) \<longrightarrow> (\<forall>g \<in> set r. start g < end' g))"
  using splitGrain_cases [OF assms, of p]
proof
  assume "splitGrain search gs p = Inr gs"
  then show ?thesis using assms(2,3) by simp
next
  assume "\<exists>xs g ys. gs = xs @ g # ys \<and> isInGrain p g \<and>
        splitGrain search gs p = Inr (xs @ splitGrainIntoTwo g p @ ys)"
  then obtain xs g ys where gs: "gs = xs @ g # ys"
    and r: "splitGrain search gs p = Inr (xs @ splitGrainIntoTwo g p @ ys)" by blast
  let ?r = "xs @ splitGrainIntoTwo g p @ ys"
  have "?r \<noteq> []" by (simp add: splitGrainIntoTwo_def Let_def)
  moreover have "contiguous ?r" using assms(3) gs contiguous_split by blast
  moreover have "start (hd ?r) = start (hd gs)" using gs hd_split by metis
  moreover have "end' (last ?r) = end' (last gs)" using gs last_split by metis
  moreover have "(\<forall>h \<in> set gs. start h < end' h) \<longrightarrow> (\<forall>h \<in> set ?r. start h < end' h)"
    using gs proper_split by blast
  ultimately show ?thesis using r by blast
qed

theorem splitGrain_preserves_contiguity_witness:
  "findsContainingGrain (divisionSearch :: string search) \<and>
   threeGrains \<noteq> [] \<and> contiguous threeGrains \<and>
   (\<exists>r. splitGrain divisionSearch threeGrains 15 = Inr r \<and> r \<noteq> [] \<and> contiguous r \<and>
       start (hd r) = 0 \<and> end' (last r) = 30 \<and> list_all (\<lambda>g. start g < end' g) r)"
  using splitGrain_preserves_contiguity [OF divisionSearch_finds threeGrains_valid(1,2), of 15]
    divisionSearch_finds [where 'a = string] threeGrains_valid
  by (auto simp: list_all_iff)

section \<open>Idempotence of the split\<close>

text \<open>
  C4. With a search that finds the containing grain, for a non-empty contiguous grain
  sequence and a split point strictly between the first sample and the last sample of the
  track, splitting the result of a split again at the same point changes nothing. The point
  has become the start of a grain of the result, unless it is the last sample
  \<open>end - 1\<close> of a grain, where neither split cuts.
\<close>

theorem splitGrain_idempotent:
  assumes "findsContainingGrain search" "gs \<noteq> []" "contiguous gs"
    "start (hd gs) < p" "p < end' (last gs) - 1"
  shows "\<exists>r. splitGrain search gs p = Inr r \<and> splitGrain search r p = Inr r \<and>
           ((\<forall>g \<in> set gs. p \<noteq> end' g - 1) \<longrightarrow> (\<exists>g \<in> set r. start g = p))"
proof -
  have inside: "\<not> (p \<le> start (hd gs) \<or> p \<ge> end' (last gs) - 1)"
    using assms(4,5) by simp
  obtain i where i: "i < length gs" "isInGrain p (gs ! i)"
    using contains_exists [of gs p] assms(2,3,4,5) by auto
  let ?g = "gs ! i"
  let ?xs = "take i gs"
  let ?ys = "drop (Suc i) gs"
  have gs: "gs = ?xs @ ?g # ?ys" using i(1) by (simp add: id_take_nth_drop)
  have first: "splitGrain search gs p = Inr (?xs @ splitGrainIntoTwo ?g p @ ?ys)"
    using splitGrain_inside [OF assms(1,3) i inside] .
  show ?thesis
  proof (cases "p \<le> start ?g \<or> p \<ge> end' ?g - 1")
    case True
    have same: "splitGrain search gs p = Inr gs"
      using splitGrain_fixed [OF assms(1,2,3) i True] .
    have "(\<forall>g \<in> set gs. p \<noteq> end' g - 1) \<longrightarrow> (\<exists>g \<in> set gs. start g = p)"
    proof
      assume "\<forall>g \<in> set gs. p \<noteq> end' g - 1"
      then have "p \<noteq> end' ?g - 1" using i(1) by simp
      then have "start ?g = p" using True i(2) by (auto simp: isInGrain_def)
      then show "\<exists>g \<in> set gs. start g = p" using i(1) nth_mem by blast
    qed
    then show ?thesis using same by blast
  next
    case False
    let ?l = "?g\<lparr>start := start ?g, end' := p\<rparr>"
    let ?r = "?g\<lparr>start := p, end' := end' ?g\<rparr>"
    let ?res = "?xs @ ?l # ?r # ?ys"
    have two: "splitGrainIntoTwo ?g p = [?l, ?r]"
      using False by (simp add: splitGrainIntoTwo_def Let_def)
    have res: "splitGrain search gs p = Inr ?res" using first two by simp
    have "contiguous (?xs @ ?g # ?ys)" using assms(3) gs by simp
    then have "contiguous (?xs @ splitGrainIntoTwo ?g p @ ?ys)" by (rule contiguous_split)
    then have cont: "contiguous ?res" using two by simp
    have len: "length ?xs = i" using i(1) by simp
    have at: "?res ! Suc i = ?r"
      using len by (metis append.assoc append_Cons append_Nil length_append_singleton nth_append_length)
    have inRes: "Suc i < length ?res" using i(1) by simp
    have "isInGrain p (?res ! Suc i)"
      using at False by (simp add: isInGrain_def)
    moreover have "p \<le> start (?res ! Suc i)" using at by simp
    ultimately have "splitGrain search ?res p = Inr ?res"
      using splitGrain_fixed [of search ?res "Suc i" p] assms(1) cont inRes by blast
    moreover have "\<exists>g \<in> set ?res. start g = p"
    proof
      show "?r \<in> set ?res" by simp
      show "start ?r = p" by simp
    qed
    ultimately show ?thesis using res by blast
  qed
qed

theorem splitGrain_idempotent_witness:
  "findsContainingGrain (divisionSearch :: string search) \<and>
   threeGrains \<noteq> [] \<and> contiguous threeGrains \<and> start (hd threeGrains) < 15 \<and>
   15 < end' (last threeGrains) - 1 \<and>
   (\<exists>r. splitGrain divisionSearch threeGrains 15 = Inr r \<and>
        splitGrain divisionSearch r 15 = Inr r \<and> 15 \<in> set (map start r))"
proof -
  have bounds: "start (hd threeGrains) < 15" "15 < end' (last threeGrains) - 1"
    "\<forall>g \<in> set threeGrains. 15 \<noteq> end' g - 1"
    by (simp_all add: threeGrains_def)
  show ?thesis
    using splitGrain_idempotent [OF divisionSearch_finds threeGrains_valid(1,2) bounds(1,2)]
      divisionSearch_finds [where 'a = string] threeGrains_valid(1,2) bounds
    by auto
qed

section \<open>The flags of the filler grains\<close>

text \<open>
  C5. For a non-empty grain sequence, any view and any search, \<open>grainIndexesInView\<close>
  returns a start and an end index. When both are indexes of the sequence,
  \<open>whichGrainsToShow\<close> returns a start filler, the grains from the start index to the end
  index and an end filler, where both fillers have \<open>filler\<close> true, the start filler has
  \<open>more\<close> true exactly when the start index is not \<open>0\<close>, and the end filler has
  \<open>more\<close> true exactly when the end index is not the last index. Otherwise it throws and
  there is no result.
\<close>

theorem filler_more_flags:
  assumes "gs \<noteq> []"
  shows "\<exists>ix. grainIndexesInView search gs v = Inr ix \<and>
           (if 0 \<le> startIndex ix \<and> startIndex ix < int (length gs) \<and>
               0 \<le> endIndex ix \<and> endIndex ix < int (length gs)
            then \<exists>startFiller endFiller.
                   whichGrainsToShow search gs v =
                     Inr (startFiller # slice gs (startIndex ix) (endIndex ix + 1)
                          @ [endFiller]) \<and>
                   filler startFiller = Some True \<and>
                   more' startFiller = Some (startIndex ix \<noteq> 0) \<and>
                   filler endFiller = Some True \<and>
                   more' endFiller = Some (endIndex ix \<noteq> int (length gs) - 1)
            else whichGrainsToShow search gs v = Inl TypeError)"
proof -
  obtain ix where ix: "grainIndexesInView search gs v = Inr ix"
    using grainIndexesInView_nonempty [OF assms] by blast
  show ?thesis
  proof (cases "0 \<le> startIndex ix \<and> startIndex ix < int (length gs) \<and>
      0 \<le> endIndex ix \<and> endIndex ix < int (length gs)")
    case True
    obtain i where i: "startIndex ix = int i" "i < length gs"
      using True index_nat by blast
    obtain j where j: "endIndex ix = int j" "j < length gs"
      using True index_nat by blast
    have flag: "(endIndex ix \<noteq> int (length gs) - 1) = (j \<noteq> length gs - 1)"
      using j by linarith
    let ?s = "createFillerGrain (viewStart v) (start (gs ! i)) (i \<noteq> 0) :: 'a grain"
    let ?e = "createFillerGrain (end' (gs ! j)) (viewEnd v) (j \<noteq> length gs - 1) :: 'a grain"
    have "whichGrainsToShow search gs v = Inr (?s # take (Suc j - i) (drop i gs) @ [?e])"
      using whichGrainsToShow_indexes [OF ix i j] .
    then have "whichGrainsToShow search gs v
        = Inr (?s # slice gs (startIndex ix) (endIndex ix + 1) @ [?e])"
      using i(1) j(1) by (simp add: slice_between)
    moreover have "filler ?s = Some True" "more' ?s = Some (startIndex ix \<noteq> 0)"
      using i by (simp_all add: createFillerGrain_def)
    moreover have "filler ?e = Some True"
      "more' ?e = Some (endIndex ix \<noteq> int (length gs) - 1)"
      using flag by (simp_all add: createFillerGrain_def)
    ultimately have "\<exists>startFiller endFiller.
        whichGrainsToShow search gs v =
          Inr (startFiller # slice gs (startIndex ix) (endIndex ix + 1) @ [endFiller]) \<and>
        filler startFiller = Some True \<and>
        more' startFiller = Some (startIndex ix \<noteq> 0) \<and>
        filler endFiller = Some True \<and>
        more' endFiller = Some (endIndex ix \<noteq> int (length gs) - 1)"
      by blast
    then show ?thesis using ix True by auto
  next
    case False
    then have "elementAt gs (startIndex ix) = None \<or> elementAt gs (endIndex ix) = None"
      by (auto simp: elementAt_def)
    then have "whichGrainsToShow search gs v = Inl TypeError"
      using whichGrainsToShow_outside [OF ix] by blast
    then show ?thesis using ix False by auto
  qed
qed

theorem filler_more_flags_witness:
  "threeGrains \<noteq> [] \<and>
   whichGrainsToShow divisionSearch threeGrains beyondView = Inl TypeError \<and>
   (\<exists>startFiller endFiller.
      whichGrainsToShow divisionSearch threeGrains insideView
        = Inr (startFiller # slice threeGrains 0 2 @ [endFiller]) \<and>
      filler startFiller = Some True \<and> more' startFiller = Some False \<and>
      filler endFiller = Some True \<and> more' endFiller = Some True)"
proof -
  have len: "int (length threeGrains) = 3" by (simp add: threeGrains_def)
  obtain far where far: "grainIndexesInView divisionSearch threeGrains beyondView = Inr far"
    and beyondFlags:
      "if 0 \<le> startIndex far \<and> startIndex far < int (length threeGrains) \<and>
          0 \<le> endIndex far \<and> endIndex far < int (length threeGrains)
       then \<exists>startFiller endFiller.
              whichGrainsToShow divisionSearch threeGrains beyondView =
                Inr (startFiller # slice threeGrains (startIndex far) (endIndex far + 1)
                     @ [endFiller]) \<and>
              filler startFiller = Some True \<and>
              more' startFiller = Some (startIndex far \<noteq> 0) \<and>
              filler endFiller = Some True \<and>
              more' endFiller = Some (endIndex far \<noteq> int (length threeGrains) - 1)
       else whichGrainsToShow divisionSearch threeGrains beyondView = Inl TypeError"
    using filler_more_flags [OF threeGrains_valid(1), of divisionSearch beyondView] by blast
  have "far = \<lparr>startIndex = - 1, endIndex = 2\<rparr>"
    using far beyondView_indexes by simp
  then have beyond: "whichGrainsToShow divisionSearch threeGrains beyondView = Inl TypeError"
    using beyondFlags by simp
  obtain ix where ix: "grainIndexesInView divisionSearch threeGrains insideView = Inr ix"
    and insideFlags:
      "if 0 \<le> startIndex ix \<and> startIndex ix < int (length threeGrains) \<and>
          0 \<le> endIndex ix \<and> endIndex ix < int (length threeGrains)
       then \<exists>startFiller endFiller.
              whichGrainsToShow divisionSearch threeGrains insideView =
                Inr (startFiller # slice threeGrains (startIndex ix) (endIndex ix + 1)
                     @ [endFiller]) \<and>
              filler startFiller = Some True \<and>
              more' startFiller = Some (startIndex ix \<noteq> 0) \<and>
              filler endFiller = Some True \<and>
              more' endFiller = Some (endIndex ix \<noteq> int (length threeGrains) - 1)
       else whichGrainsToShow divisionSearch threeGrains insideView = Inl TypeError"
    using filler_more_flags [OF threeGrains_valid(1), of divisionSearch insideView] by blast
  have "ix = \<lparr>startIndex = 0, endIndex = 1\<rparr>"
    using ix insideView_indexes by simp
  then have inside: "\<exists>startFiller endFiller.
      whichGrainsToShow divisionSearch threeGrains insideView
        = Inr (startFiller # slice threeGrains 0 2 @ [endFiller]) \<and>
      filler startFiller = Some True \<and> more' startFiller = Some False \<and>
      filler endFiller = Some True \<and> more' endFiller = Some True"
    using insideFlags len by simp
  show ?thesis using threeGrains_valid(1) beyond inside by blast
qed

section \<open>The sentinel of the search\<close>

text \<open>
  C6. For a non-empty grain sequence \<open>grainIndexesInView\<close> returns indexes, never an
  error, and the end index is never the sentinel \<open>-1\<close>, whatever the search gives. With a
  search that gives the sentinel for a target at or beyond the bound, a view that ends at
  or beyond the track's length has the index of the last grain as its end index.
\<close>

theorem endIndex_sentinel_clamped:
  assumes "signalsOutOfRange search" "gs \<noteq> []"
  shows "\<exists>ix. grainIndexesInView search gs v = Inr ix \<and> endIndex ix \<noteq> - 1 \<and>
           (search (viewEnd v) gs (Some (end' (last gs))) = - 1 \<longrightarrow>
              endIndex ix = int (length gs) - 1) \<and>
           (end' (last gs) \<le> viewEnd v \<longrightarrow>
              search (viewEnd v) gs (Some (end' (last gs))) = - 1 \<and>
              endIndex ix = int (length gs) - 1 \<and>
              elementAt gs (endIndex ix) = Some (last gs))"
proof -
  obtain ix where ix: "grainIndexesInView search gs v = Inr ix"
    using grainIndexesInView_nonempty [OF assms(2)] by blast
  have "endIndex ix \<noteq> - 1"
    using endIndex_not_sentinel [OF assms(2) ix] .
  moreover have clamp: "search (viewEnd v) gs (Some (end' (last gs))) = - 1 \<longrightarrow>
      endIndex ix = int (length gs) - 1"
    using ix unfolding grainIndexesInView_nonempty [OF assms(2)] by auto
  moreover have "end' (last gs) \<le> viewEnd v \<longrightarrow>
      search (viewEnd v) gs (Some (end' (last gs))) = - 1 \<and>
      endIndex ix = int (length gs) - 1 \<and>
      elementAt gs (endIndex ix) = Some (last gs)"
    using clamp signals_bound [OF assms(1)] elementAt_last [OF assms(2)] by simp
  ultimately show ?thesis using ix by blast
qed

theorem endIndex_sentinel_clamped_witness:
  "signalsOutOfRange (divisionSearch :: string search) \<and> threeGrains \<noteq> [] \<and>
   end' (last threeGrains) \<le> viewEnd overhangingView \<and>
   (\<exists>ix. grainIndexesInView divisionSearch threeGrains overhangingView = Inr ix \<and>
        endIndex ix = 2)"
proof -
  have past: "end' (last threeGrains) \<le> viewEnd overhangingView"
    by (simp add: threeGrains_def overhangingView_def)
  show ?thesis
    using endIndex_sentinel_clamped
      [OF divisionSearch_signals threeGrains_valid(1), of overhangingView]
      divisionSearch_signals [where 'a = string] threeGrains_valid(1) past threeGrains_length
    by auto
qed

text \<open>
  C8. The start index has no such fallback. With a search that gives the sentinel for a
  target at or beyond the bound, for a non-empty grain sequence and a view that starts at
  or beyond the track's length, \<open>grainIndexesInView\<close> returns the start index \<open>-1\<close>
  (and an end index that is not the sentinel), \<open>grains[-1]\<close> is outside the array, and
  \<open>whichGrainsToShow\<close> throws on reading its \<open>start\<close>.
\<close>

theorem startIndex_sentinel_unguarded:
  assumes "signalsOutOfRange search" "gs \<noteq> []" "end' (last gs) \<le> viewStart v"
  shows "(\<exists>ix. grainIndexesInView search gs v = Inr ix \<and>
            startIndex ix = - 1 \<and> endIndex ix \<noteq> - 1) \<and>
         elementAt gs (- 1) = None \<and>
         whichGrainsToShow search gs v = Inl TypeError"
proof -
  obtain ix where ix: "grainIndexesInView search gs v = Inr ix"
    using grainIndexesInView_nonempty [OF assms(2)] by blast
  have s: "startIndex ix = - 1"
    using ix signals_bound [OF assms(1,3)]
    unfolding grainIndexesInView_nonempty [OF assms(2)] by auto
  have "endIndex ix \<noteq> - 1" using endIndex_not_sentinel [OF assms(2) ix] .
  moreover have "elementAt gs (- 1) = None" by (simp add: elementAt_def)
  moreover have "whichGrainsToShow search gs v = Inl TypeError"
    using whichGrainsToShow_sentinel [OF ix s] .
  ultimately show ?thesis using ix s by blast
qed

theorem startIndex_sentinel_unguarded_witness:
  "signalsOutOfRange (divisionSearch :: string search) \<and> threeGrains \<noteq> [] \<and>
   end' (last threeGrains) \<le> viewStart beyondView \<and>
   (\<exists>ix. grainIndexesInView divisionSearch threeGrains beyondView = Inr ix \<and>
        startIndex ix = - 1) \<and>
   whichGrainsToShow divisionSearch threeGrains beyondView = Inl TypeError"
proof -
  have past: "end' (last threeGrains) \<le> viewStart beyondView"
    by (simp add: threeGrains_def beyondView_def)
  show ?thesis
    using startIndex_sentinel_unguarded [OF divisionSearch_signals threeGrains_valid(1) past]
      divisionSearch_signals [where 'a = string] threeGrains_valid(1) past
    by blast
qed

section \<open>Reconstruction of the view\<close>

text \<open>
  C3. For a view inside the track's bounds the returned sequence should span exactly the
  view, with the real grains in their order and one filler, possibly of zero length, at
  each end. The code does otherwise, here with the search modelled from the specification.
  For the view \<open>[5, 15)\<close> of the three grains it returns the whole grains \<open>[0, 10)\<close>
  and \<open>[10, 20)\<close>, which reach beyond the view on both sides, between a start filler from
  \<open>5\<close> to \<open>0\<close> and an end filler from \<open>20\<close> to \<open>15\<close>. For the view
  \<open>[10, 20)\<close>, which is exactly the second grain, it also returns the grain
  \<open>[20, 30)\<close>, no sample of which is in the view, and an end filler from \<open>30\<close> to
  \<open>20\<close>. The comment of \<open>grainIndexesInView\<close> promises the indexes of the grains that
  are fully within the view window.
\<close>

theorem whichGrainsToShow_beyond_view:
  "whichGrainsToShow divisionSearch threeGrains insideView = Inr
     [\<lparr>start = 5, end' = 0, more' = Some False, filler = Some True, meta = None\<rparr>,
      \<lparr>start = 0, end' = 10, more' = None, filler = None, meta = Some ''intro''\<rparr>,
      \<lparr>start = 10, end' = 20, more' = None, filler = None, meta = Some ''verse''\<rparr>,
      \<lparr>start = 20, end' = 15, more' = Some True, filler = Some True, meta = None\<rparr>] \<and>
   whichGrainsToShow divisionSearch threeGrains alignedView = Inr
     [\<lparr>start = 10, end' = 10, more' = Some True, filler = Some True, meta = None\<rparr>,
      \<lparr>start = 10, end' = 20, more' = None, filler = None, meta = Some ''verse''\<rparr>,
      \<lparr>start = 20, end' = 30, more' = None, filler = None, meta = None\<rparr>,
      \<lparr>start = 30, end' = 20, more' = Some False, filler = Some True, meta = None\<rparr>]"
proof -
  have "grainIndexesInView divisionSearch threeGrains alignedView
      = Inr \<lparr>startIndex = 1, endIndex = 2\<rparr>"
    by (simp add: grainIndexesInView_def threeGrains_def alignedView_def elementAt_def Let_def
        divisionSearch_def searchBetween.simps)
  then have "whichGrainsToShow divisionSearch threeGrains alignedView = Inr
     [\<lparr>start = 10, end' = 10, more' = Some True, filler = Some True, meta = None\<rparr>,
      \<lparr>start = 10, end' = 20, more' = None, filler = None, meta = Some ''verse''\<rparr>,
      \<lparr>start = 20, end' = 30, more' = None, filler = None, meta = None\<rparr>,
      \<lparr>start = 30, end' = 20, more' = Some False, filler = Some True, meta = None\<rparr>]"
    unfolding whichGrainsToShow_def
    by (simp add: threeGrains_def alignedView_def elementAt_def Let_def slice_def
        createFillerGrain_def)
  then show ?thesis using insideView_shown by simp
qed

text \<open>
  C7. With a search that finds the containing grain and returns the sentinel or an index,
  there are a non-empty contiguous grain sequence and a view inside the track's bounds, with
  its start and its end strictly inside grains, for which both the start filler and the end
  filler returned by \<open>whichGrainsToShow\<close> end before they start. In general, for a
  contiguous sequence and a view whose start lies in grain \<open>i\<close> and before the track's
  end, the start filler starts at the view's start and ends at the start of grain \<open>i\<close>,
  so it has a negative length whenever the view starts strictly inside the grain.
\<close>

theorem filler_ends_at_grain_start:
  assumes "findsContainingGrain search" "returnsIndexOrSentinel search"
  shows "(\<exists>gs v r.
            gs \<noteq> [] \<and> contiguous gs \<and> start (hd gs) \<le> viewStart v \<and>
            viewStart v < viewEnd v \<and> viewEnd v \<le> end' (last gs) \<and>
            whichGrainsToShow search gs v = Inr r \<and>
            end' (hd r) < start (hd r) \<and> end' (last r) < start (last r)) \<and>
         (contiguous grains \<and> i < length grains \<and> isInGrain (viewStart view) (grains ! i) \<and>
          viewStart view < end' (last grains) \<longrightarrow>
            (\<exists>r. whichGrainsToShow search grains view = Inr r \<and>
                 start (hd r) = viewStart view \<and> end' (hd r) = start (grains ! i) \<and>
                 (start (grains ! i) < viewStart view \<longrightarrow> end' (hd r) < start (hd r))))"
proof
  let ?gs = "bareGrains :: 'a grain list"
  have valid: "?gs \<noteq> []" "contiguous ?gs" "start (hd ?gs) \<le> viewStart insideView"
    "viewStart insideView < viewEnd insideView" "viewEnd insideView \<le> end' (last ?gs)"
    by (simp_all add: bareGrains_def insideView_def)
  have first: "0 < length ?gs" "isInGrain (viewStart insideView) (?gs ! 0)"
    "viewStart insideView < end' (last ?gs)"
    by (simp_all add: bareGrains_def insideView_def isInGrain_def)
  have final: "1 < length ?gs" "isInGrain (viewEnd insideView) (?gs ! 1)"
    "viewEnd insideView < end' (last ?gs)"
    by (simp_all add: bareGrains_def insideView_def isInGrain_def)
  have si: "search (viewStart insideView) ?gs (Some (end' (last ?gs))) = int 0"
    using assms(1) valid(2) first by (rule finds_bounded)
  have ei: "search (viewEnd insideView) ?gs (Some (end' (last ?gs))) = int 1"
    using assms(1) valid(2) final by (rule finds_bounded)
  have ix: "grainIndexesInView search ?gs insideView = Inr \<lparr>startIndex = int 0, endIndex = int 1\<rparr>"
    unfolding grainIndexesInView_nonempty [OF valid(1)] si ei by simp
  let ?r = "createFillerGrain (viewStart insideView) (start (?gs ! 0)) (0 \<noteq> (0::nat))
      # take (Suc 1 - 0) (drop 0 ?gs)
      @ [createFillerGrain (end' (?gs ! 1)) (viewEnd insideView) (1 \<noteq> length ?gs - 1)
           :: 'a grain]"
  have shown: "whichGrainsToShow search ?gs insideView = Inr ?r"
    using whichGrainsToShow_indexes [OF ix _ first(1) _ final(1)] by simp
  have "end' (hd ?r) < start (hd ?r)" "end' (last ?r) < start (last ?r)"
    by (simp_all add: createFillerGrain_def bareGrains_def insideView_def)
  then show "\<exists>(gs :: 'a grain list) v r.
      gs \<noteq> [] \<and> contiguous gs \<and> start (hd gs) \<le> viewStart v \<and>
      viewStart v < viewEnd v \<and> viewEnd v \<le> end' (last gs) \<and>
      whichGrainsToShow search gs v = Inr r \<and>
      end' (hd r) < start (hd r) \<and> end' (last r) < start (last r)"
    using valid shown by blast
next
  show "contiguous grains \<and> i < length grains \<and> isInGrain (viewStart view) (grains ! i) \<and>
    viewStart view < end' (last grains) \<longrightarrow>
      (\<exists>r. whichGrainsToShow search grains view = Inr r \<and>
           start (hd r) = viewStart view \<and> end' (hd r) = start (grains ! i) \<and>
           (start (grains ! i) < viewStart view \<longrightarrow> end' (hd r) < start (hd r)))"
  proof
    assume a: "contiguous grains \<and> i < length grains \<and>
      isInGrain (viewStart view) (grains ! i) \<and> viewStart view < end' (last grains)"
    then have ne: "grains \<noteq> []" by auto
    obtain ix where ix: "grainIndexesInView search grains view = Inr ix"
      using grainIndexesInView_nonempty [OF ne] by blast
    have "search (viewStart view) grains (Some (end' (last grains))) = int i"
      using assms(1) a by (intro finds_bounded) simp_all
    then have si: "startIndex ix = int i"
      using ix unfolding grainIndexesInView_nonempty [OF ne] by auto
    obtain j where j: "endIndex ix = int j" "j < length grains"
      using endIndex_range [OF assms(2) ne ix] index_nat by blast
    let ?r = "createFillerGrain (viewStart view) (start (grains ! i)) (i \<noteq> 0)
          # take (Suc j - i) (drop i grains)
          @ [createFillerGrain (end' (grains ! j)) (viewEnd view) (j \<noteq> length grains - 1)]"
    have "whichGrainsToShow search grains view = Inr ?r"
      using whichGrainsToShow_indexes [OF ix si _ j] a by simp
    moreover have "start (hd ?r) = viewStart view" "end' (hd ?r) = start (grains ! i)"
      by (simp_all add: createFillerGrain_def)
    ultimately show "\<exists>r. whichGrainsToShow search grains view = Inr r \<and>
           start (hd r) = viewStart view \<and> end' (hd r) = start (grains ! i) \<and>
           (start (grains ! i) < viewStart view \<longrightarrow> end' (hd r) < start (hd r))"
      by (metis (no_types))
  qed
qed

theorem filler_ends_at_grain_start_witness:
  "findsContainingGrain (divisionSearch :: string search) \<and>
   returnsIndexOrSentinel (divisionSearch :: string search) \<and>
   contiguous threeGrains \<and> 0 < length threeGrains \<and>
   isInGrain (viewStart insideView) (threeGrains ! 0) \<and>
   viewStart insideView < end' (last threeGrains) \<and>
   start (threeGrains ! 0) < viewStart insideView \<and>
   (\<exists>r. whichGrainsToShow divisionSearch threeGrains insideView = Inr r \<and>
        start (hd r) = viewStart insideView \<and> end' (hd r) = start (threeGrains ! 0) \<and>
        end' (hd r) < start (hd r))"
proof -
  have facts: "0 < length threeGrains" "isInGrain (viewStart insideView) (threeGrains ! 0)"
    "viewStart insideView < end' (last threeGrains)"
    "start (threeGrains ! 0) < viewStart insideView"
    by (simp_all add: threeGrains_def insideView_def isInGrain_def)
  show ?thesis
    using filler_ends_at_grain_start
      [OF divisionSearch_finds divisionSearch_index, of threeGrains 0 insideView]
      divisionSearch_finds [where 'a = string] divisionSearch_index [where 'a = string]
      threeGrains_valid(2) facts
    by blast
qed

section \<open>The sample cases of a grain sequence\<close>

text \<open>
  C9, as the code has it. For a positive case rate and a \<open>random\<close> that draws within
  \<open>[low, high)\<close>, \<open>createSampleCases\<close> returns one inner sequence for each grain, in
  the grains' order; the inner sequence of a grain has
  \<open>ceil((end - start) / caseRate)\<close> values (none when that is negative); every value
  is \<open>Math.abs(data[idx])\<close> for an index \<open>idx\<close> within the grain's span; and when the
  grain lies within the data array, every value is the absolute value of the data element at
  such an index.
\<close>

theorem createSampleCases_cases:
  assumes "0 < caseRate"
    "\<forall>lo hi s. lo < hi \<longrightarrow> lo \<le> fst (random lo hi s) \<and> fst (random lo hi s) < hi"
  shows "\<exists>cases s'. createSampleCases random grains data caseRate s = Inr (cases, s') \<and>
           length cases = length grains \<and>
           (\<forall>k < length grains.
              length (cases ! k)
                = nat \<lceil>real_of_int (end' (grains ! k) - start (grains ! k))
                         / real_of_int caseRate\<rceil> \<and>
              (\<forall>x \<in> set (cases ! k).
                 \<exists>idx. start (grains ! k) \<le> idx \<and> idx < end' (grains ! k) \<and>
                       x = mathAbs (elementAt data idx)) \<and>
              (0 \<le> start (grains ! k) \<and> end' (grains ! k) \<le> int (length data) \<longrightarrow>
                 (\<forall>x \<in> set (cases ! k).
                    \<exists>idx. start (grains ! k) \<le> idx \<and> idx < end' (grains ! k) \<and>
                          x = Num \<bar>data ! nat idx\<bar>)))"
proof -
  let ?count = "\<lambda>g. \<lceil>real_of_int (end' g - start g) / real_of_int caseRate\<rceil>"
  let ?ranges = "map rangeTo (map (\<lambda>l. \<lceil>real_of_int l / real_of_int caseRate\<rceil>)
                   (grainLengths grains))"
  have nth: "?ranges ! k = rangeTo (?count (grains ! k))" if "k < length grains" for k
    using that by (simp add: grainLengths_def)
  have enough: "0 + length grains \<le> length ?ranges"
    by (simp add: grainLengths_def)
  have proper: "\<forall>k < length grains. ?ranges ! (0 + k) \<noteq> [] \<longrightarrow>
      start (grains ! k) < end' (grains ! k)"
  proof (intro allI impI)
    fix k assume k: "k < length grains" "?ranges ! (0 + k) \<noteq> []"
    then have "rangeTo (?count (grains ! k)) \<noteq> []" using nth [of k] by (metis add_0)
    then have "0 < ?count (grains ! k)" by (rule rangeTo_empty)
    then have "0 < end' (grains ! k) - start (grains ! k)"
      using ceiling_positive [OF assms(1)] by blast
    then show "start (grains ! k) < end' (grains ! k)" by simp
  qed
  obtain cases s' where cases:
    "casesFrom random ?ranges data 0 grains s = Inr (cases, s')"
    "length cases = length grains"
    "\<forall>k < length grains.
        length (cases ! k) = length (?ranges ! (0 + k)) \<and>
        (\<forall>x \<in> set (cases ! k).
           \<exists>idx. start (grains ! k) \<le> idx \<and> idx < end' (grains ! k) \<and>
                 x = mathAbs (elementAt data idx))"
    using casesFrom_cases [OF assms(2) enough proper, of data s] by blast
  have result: "createSampleCases random grains data caseRate s = Inr (cases, s')"
    using cases(1) by (simp add: createSampleCases_def Let_def)
  have each: "length (cases ! k) = nat (?count (grains ! k)) \<and>
      (\<forall>x \<in> set (cases ! k).
         \<exists>idx. start (grains ! k) \<le> idx \<and> idx < end' (grains ! k) \<and>
               x = mathAbs (elementAt data idx)) \<and>
      (0 \<le> start (grains ! k) \<and> end' (grains ! k) \<le> int (length data) \<longrightarrow>
         (\<forall>x \<in> set (cases ! k).
            \<exists>idx. start (grains ! k) \<le> idx \<and> idx < end' (grains ! k) \<and>
                  x = Num \<bar>data ! nat idx\<bar>))"
    if k: "k < length grains" for k
  proof -
    have len: "length (cases ! k) = nat (?count (grains ! k))"
      using cases(3) k nth rangeTo_length by simp
    have drawn: "\<forall>x \<in> set (cases ! k).
        \<exists>idx. start (grains ! k) \<le> idx \<and> idx < end' (grains ! k) \<and>
              x = mathAbs (elementAt data idx)"
      using cases(3) k by simp
    have "\<forall>x \<in> set (cases ! k).
        \<exists>idx. start (grains ! k) \<le> idx \<and> idx < end' (grains ! k) \<and>
              x = Num \<bar>data ! nat idx\<bar>"
      if inData: "0 \<le> start (grains ! k) \<and> end' (grains ! k) \<le> int (length data)"
    proof
      fix x assume "x \<in> set (cases ! k)"
      then obtain idx where idx: "start (grains ! k) \<le> idx" "idx < end' (grains ! k)"
        "x = mathAbs (elementAt data idx)"
        using drawn by blast
      then have "elementAt data idx = Some (data ! nat idx)"
        using inData by (simp add: elementAt_def)
      then show "\<exists>idx. start (grains ! k) \<le> idx \<and> idx < end' (grains ! k) \<and>
          x = Num \<bar>data ! nat idx\<bar>"
        using idx by auto
    qed
    then show ?thesis using len drawn by blast
  qed
  show ?thesis using result cases(2) each by blast
qed

theorem createSampleCases_cases_witness:
  "(0::int) < 2 \<and>
   (\<exists>cases s'. createSampleCases cyclingRandom twoGrains [1, - 2, 3, - 4, 5, - 6, 7, - 8] 2 0
        = Inr (cases, s') \<and>
      length cases = length twoGrains \<and>
      length (cases ! 0) = 2 \<and> length (cases ! 1) = 3 \<and>
      list_all (\<lambda>x. x \<in> set (absoluteValues [1, - 2, 3, - 4, 5, - 6, 7, - 8])) (cases ! 1))"
proof -
  let ?data = "[1, - 2, 3, - 4, 5, - 6, 7, - 8] :: real list"
  have rate: "(0::int) < 2" by simp
  obtain cases s' where cases:
    "createSampleCases cyclingRandom twoGrains ?data 2 0 = Inr (cases, s')"
    "length cases = length twoGrains"
    "\<forall>k < length twoGrains.
        length (cases ! k)
          = nat \<lceil>real_of_int (end' (twoGrains ! k) - start (twoGrains ! k)) / real_of_int 2\<rceil> \<and>
        (\<forall>x \<in> set (cases ! k).
           \<exists>idx. start (twoGrains ! k) \<le> idx \<and> idx < end' (twoGrains ! k) \<and>
                 x = mathAbs (elementAt ?data idx)) \<and>
        (0 \<le> start (twoGrains ! k) \<and> end' (twoGrains ! k) \<le> int (length ?data) \<longrightarrow>
           (\<forall>x \<in> set (cases ! k).
              \<exists>idx. start (twoGrains ! k) \<le> idx \<and> idx < end' (twoGrains ! k) \<and>
                    x = Num \<bar>?data ! nat idx\<bar>))"
    using createSampleCases_cases [OF rate cyclingRandom_within, of twoGrains ?data 0] by blast
  have "cases = [[Num 1, Num 2], [Num 6, Num 7, Num 8]]"
    using cases(1) createSampleCases_example by simp
  then have "length (cases ! 0) = 2" "length (cases ! 1) = 3"
    "list_all (\<lambda>x. x \<in> set (absoluteValues ?data)) (cases ! 1)"
    by (simp_all add: absoluteValues_def)
  then show ?thesis using rate cases(1,2) by blast
qed

text \<open>
  C9 as stated fails for a grain that reaches past the data: the indexes drawn there are
  outside the array, and the values are \<open>NaN\<close>, which is the absolute value of no data
  element.
\<close>

theorem createSampleCases_counterexample:
  "contiguous grainsPastData \<and>
   createSampleCases cyclingRandom grainsPastData shortData 1 0
     = Inr ([[Num 3, Num 4], [NaN, NaN]], 4) \<and>
   NaN \<notin> set (absoluteValues shortData)"
  by (simp add: createSampleCases_def grainsPastData_def shortData_def grainLengths_def
      rangeTo_def Let_def elementAt_def cyclingRandom_def upto.simps absoluteValues_def)

section \<open>The partition into equally spaced grains\<close>




end
